theory Spec2Isabelle
  imports Complex_Main "HOL-Library.AList"
begin

section \<open>Python strings\<close>

text \<open>
  A Python \<open>str\<close> is a sequence of Unicode code points, and \<open>len\<close> counts code points.
  A string is therefore a list of code points, each a natural number. The literals of
  \<open>main.py\<close> are ASCII; \<open>str_of\<close> reads one from an Isabelle string literal.
\<close>

type_synonym pystr = "nat list"

definition str_of :: "string \<Rightarrow> pystr" where
  "str_of s = map of_char s"

text \<open>\<open>a in b\<close> on two strings: \<open>a\<close> occurs in \<open>b\<close> as a contiguous substring.\<close>

fun str_in :: "pystr \<Rightarrow> pystr \<Rightarrow> bool" where
  "str_in a [] = (a = [])"
| "str_in a (c # cs) = (take (length a) (c # cs) = a \<or> str_in a cs)"

section \<open>The social networks\<close>

text \<open>
  \<open>class SocialNetwork(Enum)\<close>: two members, each a tuple of domain URL, valid path
  substrings, text column, URL column and site query.
\<close>

datatype SocialNetwork = FACEBOOK | INSTAGRAM

fun get_domain_url :: "SocialNetwork \<Rightarrow> pystr" where
  "get_domain_url FACEBOOK = str_of ''https://www.facebook.com/''"
| "get_domain_url INSTAGRAM = str_of ''https://www.instagram.com/''"

fun get_valid_substrings :: "SocialNetwork \<Rightarrow> pystr list" where
  "get_valid_substrings FACEBOOK =
     [str_of ''posts/'', str_of ''videos/'', str_of ''photos/'', str_of ''groups/'']"
| "get_valid_substrings INSTAGRAM =
     [str_of ''p/'', str_of ''tv/'', str_of ''reel/'', str_of ''video/'', str_of ''photo/'']"

fun get_text_column :: "SocialNetwork \<Rightarrow> pystr" where
  "get_text_column FACEBOOK = str_of ''Caption''"
| "get_text_column INSTAGRAM = str_of ''Caption''"

fun get_url_column :: "SocialNetwork \<Rightarrow> pystr" where
  "get_url_column FACEBOOK = str_of ''URL''"
| "get_url_column INSTAGRAM = str_of ''URL''"

fun get_site_query :: "SocialNetwork \<Rightarrow> pystr" where
  "get_site_query FACEBOOK = str_of ''site: facebook.com''"
| "get_site_query INSTAGRAM = str_of ''site: instagram.com''"

definition MIN_TEXT_LENGTH :: nat where
  "MIN_TEXT_LENGTH = 200"

section \<open>filter_bmp_characters\<close>

text \<open>
  \<open>re.sub(r'[^\u0000-\uFFFF]', '', text)\<close>. The pattern is one character class, so a match
  is always exactly one character. A class is a negation flag and a list of inclusive
  ranges; \<open>re_sub\<close> scans the text from the left and puts the replacement in the place of
  every character the class matches.
\<close>

datatype char_class = CharClass (negated: bool) (ranges: "(nat \<times> nat) list")

fun in_ranges :: "(nat \<times> nat) list \<Rightarrow> nat \<Rightarrow> bool" where
  "in_ranges [] c = False"
| "in_ranges ((lo, hi) # rs) c = ((lo \<le> c \<and> c \<le> hi) \<or> in_ranges rs c)"

definition class_matches :: "char_class \<Rightarrow> nat \<Rightarrow> bool" where
  "class_matches cls c = (if negated cls then \<not> in_ranges (ranges cls) c
                          else in_ranges (ranges cls) c)"

fun re_sub :: "char_class \<Rightarrow> pystr \<Rightarrow> pystr \<Rightarrow> pystr" where
  "re_sub cls repl [] = []"
| "re_sub cls repl (c # cs) =
     (if class_matches cls c then repl @ re_sub cls repl cs else c # re_sub cls repl cs)"

definition filter_bmp_characters :: "pystr \<Rightarrow> pystr" where
  "filter_bmp_characters text = re_sub (CharClass True [(0x0000, 0xFFFF)]) [] text"

text \<open>
  What the specification says of it: the characters above U+FFFF are removed, the others
  stay as they are, in their order.
\<close>

definition strip_non_bmp :: "pystr \<Rightarrow> pystr" where
  "strip_non_bmp text = filter (\<lambda>c. c \<le> 0xFFFF) text"

section \<open>Python values and exceptions\<close>

text \<open>
  The values that \<open>response.json()\<close> and a cell of the table can hold: \<open>None\<close>, a
  boolean, an integer, a float (finite, infinite with its sign, or not a number), a string,
  a list, and a dictionary with string keys, written as its items with one pair per key.
\<close>

datatype pyfloat = Finite rat | Infinite bool | NaN

datatype pyval =
    PyNone
  | PyBool bool
  | PyInt int
  | PyFloat pyfloat
  | PyStr pystr
  | PyList "pyval list"
  | PyDict "(pystr \<times> pyval) list"

datatype exn = ConnectionError | JSONDecodeError | KeyError pystr | AttributeError | TypeError

text \<open>The truth value of a value in a condition, as in \<open>if url:\<close>.\<close>

fun truthy :: "pyval \<Rightarrow> bool" where
  "truthy PyNone = False"
| "truthy (PyBool b) = b"
| "truthy (PyInt n) = (n \<noteq> 0)"
| "truthy (PyFloat x) = (x \<noteq> Finite 0)"
| "truthy (PyStr s) = (s \<noteq> [])"
| "truthy (PyList xs) = (xs \<noteq> [])"
| "truthy (PyDict d) = (d \<noteq> [])"

text \<open>
  \<open>v.get(k, default)\<close>: a dictionary gives the value at the key or the default; no other
  value of the kinds above has a method \<open>get\<close>, so the call raises \<open>AttributeError\<close>.
\<close>

fun py_get :: "pyval \<Rightarrow> pystr \<Rightarrow> pyval \<Rightarrow> exn + pyval" where
  "py_get (PyDict d) k dflt = Inr (case map_of d k of None \<Rightarrow> dflt | Some v \<Rightarrow> v)"
| "py_get v k dflt = Inl AttributeError"

text \<open>
  \<open>for item in v\<close>: a list gives its elements, a dictionary its keys, a string its
  characters as strings of length one; the other values are not iterable (\<open>TypeError\<close>).
\<close>

fun py_iter :: "pyval \<Rightarrow> exn + pyval list" where
  "py_iter (PyList xs) = Inr xs"
| "py_iter (PyDict d) = Inr (map (\<lambda>kv. PyStr (fst kv)) d)"
| "py_iter (PyStr s) = Inr (map (\<lambda>c. PyStr [c]) s)"
| "py_iter v = Inl TypeError"

text \<open>
  \<open>v[k]\<close> for a string \<open>k\<close>: a dictionary gives the value at the key or raises
  \<open>KeyError\<close>; a list and a string take integer indices only, and the other values
  cannot be subscripted (\<open>TypeError\<close>).
\<close>

fun py_getitem :: "pyval \<Rightarrow> pystr \<Rightarrow> exn + pyval" where
  "py_getitem (PyDict d) k = (case map_of d k of None \<Rightarrow> Inl (KeyError k) | Some v \<Rightarrow> Inr v)"
| "py_getitem v k = Inl TypeError"

text \<open>
  \<open>s in v\<close> for a string \<open>s\<close>: in a string, \<open>s\<close> occurs as a substring; in a list, an
  element equals \<open>s\<close>; in a dictionary, \<open>s\<close> is a key; the other values are not containers
  (\<open>TypeError\<close>).
\<close>

fun py_in :: "pystr \<Rightarrow> pyval \<Rightarrow> exn + bool" where
  "py_in s (PyStr t) = Inr (str_in s t)"
| "py_in s (PyList xs) = Inr (PyStr s \<in> set xs)"
| "py_in s (PyDict d) = Inr (s \<in> fst ` set d)"
| "py_in s v = Inl TypeError"

section \<open>google_search\<close>

text \<open>
  The request parameters, with the two credentials that \<open>main\<close> stores in the globals
  \<open>API_KEY\<close> and \<open>CSE_ID\<close> before the first search.
\<close>

record credentials =
  API_KEY :: pystr
  CSE_ID :: pystr

record params =
  q :: pystr
  key :: pystr
  cx :: pystr
  num :: int

text \<open>
  What \<open>requests.get\<close> followed by \<open>response.json()\<close> can give. The request either fails
  to produce a response (\<open>requests.get\<close> raises \<open>ConnectionError\<close>), or produces one with
  a status code and a body. The body is either not JSON (\<open>response.json()\<close> raises
  \<open>JSONDecodeError\<close>) or any JSON value, as the Python value it is parsed to.
\<close>

datatype body = Malformed | Json pyval

datatype http_result = NoResponse | Response (status_code: nat) (content: body)

text \<open>
  The interaction of the program with the outside: the requests it sent and the sleeps it
  made, in order. The server is any function of that history and of the request, so a
  response may depend on everything that happened before it.
\<close>

datatype event = Get params | Sleep nat

type_synonym server = "event list \<Rightarrow> params \<Rightarrow> http_result"

text \<open>\<open>response.raise_for_status()\<close> raises \<open>HTTPError\<close> for the statuses 400 to 599.\<close>

definition raise_for_status :: "nat \<Rightarrow> bool" where
  "raise_for_status st = (400 \<le> st \<and> st < 600)"

text \<open>
  The condition of line 123 on a link that is a string: the domain URL occurs in the link
  and so does one of the valid substrings.
\<close>

definition accepted :: "SocialNetwork \<Rightarrow> pystr \<Rightarrow> bool" where
  "accepted social_network link =
     (str_in (get_domain_url social_network) link \<and>
      list_ex (\<lambda>substring. str_in substring link) (get_valid_substrings social_network))"

text \<open>
  The same condition as the code evaluates it on any value: \<open>any(substring in link for
  substring in ...)\<close> stops at the first substring that is in the link, and \<open>and\<close> does not
  evaluate it when the domain URL is not in the link.
\<close>

fun any_in :: "pystr list \<Rightarrow> pyval \<Rightarrow> exn + bool" where
  "any_in [] link = Inr False"
| "any_in (substring # rest) link =
     (case py_in substring link of
        Inl e \<Rightarrow> Inl e
      | Inr found \<Rightarrow> if found then Inr True else any_in rest link)"

definition link_matches :: "SocialNetwork \<Rightarrow> pyval \<Rightarrow> exn + bool" where
  "link_matches social_network link =
     (case py_in (get_domain_url social_network) link of
        Inl e \<Rightarrow> Inl e
      | Inr found \<Rightarrow>
          if found then any_in (get_valid_substrings social_network) link else Inr False)"

text \<open>
  The loop over \<open>itens\<close> (lines 121 to 126): \<open>item['link']\<close> and the condition may raise;
  the first link that meets the condition is returned, and the empty string when the
  items end.
\<close>

fun scan_itens :: "SocialNetwork \<Rightarrow> pyval list \<Rightarrow> exn + pyval" where
  "scan_itens social_network [] = Inr (PyStr [])"
| "scan_itens social_network (item # itens) =
     (case py_getitem item (str_of ''link'') of
        Inl e \<Rightarrow> Inl e
      | Inr link \<Rightarrow>
          (case link_matches social_network link of
             Inl e \<Rightarrow> Inl e
           | Inr found \<Rightarrow>
               if found then Inr link else scan_itens social_network itens))"

text \<open>
  Lines 118 to 126 on the parsed body: \<open>search_results.get('items', [])\<close>, then the loop
  over what it gave.
\<close>

definition read_results :: "SocialNetwork \<Rightarrow> pyval \<Rightarrow> exn + pyval" where
  "read_results social_network search_results =
     (case py_get search_results (str_of ''items'') (PyList []) of
        Inl e \<Rightarrow> Inl e
      | Inr itens \<Rightarrow>
          (case py_iter itens of
             Inl e \<Rightarrow> Inl e
           | Inr its \<Rightarrow> scan_itens social_network its))"

text \<open>
  The loop \<open>for attempt in range(retries)\<close> over the attempts that are left, with the
  history so far. The result is the returned value or the exception that leaves the
  function, and the history after the call. The messages printed on the console are not
  part of the model.
\<close>

fun attempts :: "server \<Rightarrow> params \<Rightarrow> SocialNetwork \<Rightarrow> nat list \<Rightarrow> event list
    \<Rightarrow> (exn + pyval) \<times> event list" where
  "attempts srv ps social_network [] h = (Inr (PyStr []), h)"
| "attempts srv ps social_network (attempt # rest) h =
     (case srv h ps of
        NoResponse \<Rightarrow> (Inl ConnectionError, h @ [Get ps])
      | Response st b \<Rightarrow>
          if raise_for_status st then
            (if st = 429
             then attempts srv ps social_network rest (h @ [Get ps, Sleep (2 ^ attempt)])
             else (Inr (PyStr []), h @ [Get ps]))
          else
            (case b of
               Malformed \<Rightarrow> (Inl JSONDecodeError, h @ [Get ps])
             | Json search_results \<Rightarrow>
                 (read_results social_network search_results, h @ [Get ps])))"

text \<open>The dictionary \<open>params\<close> of lines 107 to 112.\<close>

definition request_params :: "credentials \<Rightarrow> pystr \<Rightarrow> int \<Rightarrow> params" where
  "request_params cred query max_results =
     \<lparr>q = query, key = API_KEY cred, cx = CSE_ID cred, num = max_results\<rparr>"

text \<open>\<open>range(retries)\<close> is empty for \<open>retries \<le> 0\<close>.\<close>

definition google_search :: "server \<Rightarrow> credentials \<Rightarrow> pystr \<Rightarrow> SocialNetwork \<Rightarrow> int \<Rightarrow> int
    \<Rightarrow> event list \<Rightarrow> (exn + pyval) \<times> event list" where
  "google_search srv cred query social_network max_results retries h =
     attempts srv (request_params cred query max_results) social_network [0..<nat retries] h"

section \<open>main\<close>

text \<open>
  The table that \<open>read_posts_from_extraction\<close> hands to \<open>main\<close>: a list of rows in file
  order, a row being its cells by column name, in column order. A cell holds what
  \<open>read_csv\<close> made of it: a string, a number, a boolean, or the float that is not a number
  for an empty cell. The row labels are the positions \<open>0, 1, ...\<close> that \<open>read_csv\<close> gives.
\<close>

type_synonym row = "(pystr \<times> pyval) list"

type_synonym dataframe = "row list"

text \<open>\<open>data_posts[column] = value\<close>: the column is replaced where it is, or added last.\<close>

definition set_column :: "pystr \<Rightarrow> pyval \<Rightarrow> dataframe \<Rightarrow> dataframe" where
  "set_column column v df = map (AList.update column v) df"

text \<open>
  \<open>data_posts.at[index, column] = value\<close>, for a label of the table: the cell takes
  the value as it is.
\<close>

definition set_at :: "nat \<Rightarrow> pystr \<Rightarrow> pyval \<Rightarrow> dataframe \<Rightarrow> dataframe" where
  "set_at index column v df = df[index := AList.update column v (df ! index)]"

text \<open>
  The three messages that the loop prints, one per row: line 164 (with the line number and
  the length of the query), line 172 (with the line number and the URL) and line 174.
\<close>

datatype message = Ignored nat nat | UrlFound nat pyval | UrlNotFound nat

fun is_ignored :: "message \<Rightarrow> bool" where
  "is_ignored (Ignored n l) = True"
| "is_ignored m = False"

fun is_found :: "message \<Rightarrow> bool" where
  "is_found (UrlFound n url) = True"
| "is_found m = False"

fun is_not_found :: "message \<Rightarrow> bool" where
  "is_not_found (UrlNotFound n) = True"
| "is_not_found m = False"

text \<open>
  The state of the loop: the table, the two counters, the console, the history of requests
  and sleeps, and the labels of the rows that line 170 assigned to, in order.
\<close>

record run_state =
  data_posts :: dataframe
  search_success :: int
  insuficient_text :: int
  console :: "message list"
  history :: "event list"
  stores :: "nat list"

text \<open>Line 161: the site query, a plus sign and the filtered caption.\<close>

definition query_of :: "SocialNetwork \<Rightarrow> pystr \<Rightarrow> pystr" where
  "query_of social_network caption =
     get_site_query social_network @ str_of ''+'' @ filter_bmp_characters caption"

text \<open>
  The body of the loop, lines 160 to 174, for one pair of \<open>iterrows\<close>. \<open>row[column]\<close>
  raises \<open>KeyError\<close> when the row has no such column, \<open>re.sub\<close> raises \<open>TypeError\<close> on a
  cell that is not a string, and an exception of \<open>google_search\<close> leaves \<open>main\<close> too.
\<close>

definition main_row :: "server \<Rightarrow> credentials \<Rightarrow> SocialNetwork \<Rightarrow> nat \<times> row \<Rightarrow> run_state
    \<Rightarrow> exn + run_state" where
  "main_row srv cred social_network ir st =
     (case ir of (index, row) \<Rightarrow>
      case map_of row (get_text_column social_network) of
        None \<Rightarrow> Inl (KeyError (get_text_column social_network))
      | Some (PyStr caption) \<Rightarrow>
          let query = query_of social_network caption in
          if length query < MIN_TEXT_LENGTH then
            Inr (st\<lparr>console := console st @ [Ignored (index + 1) (length query)],
                    insuficient_text := insuficient_text st + 1\<rparr>)
          else
            (case google_search srv cred query social_network 5 5 (history st) of
               (Inl e, h) \<Rightarrow> Inl e
             | (Inr url, h) \<Rightarrow>
                 if truthy url then
                   Inr (st\<lparr>data_posts :=
                             set_at index (get_url_column social_network) url (data_posts st),
                           search_success := search_success st + 1,
                           console := console st @ [UrlFound (index + 1) url],
                           history := h,
                           stores := stores st @ [index]\<rparr>)
                 else
                   Inr (st\<lparr>console := console st @ [UrlNotFound (index + 1)],
                           history := h\<rparr>))
      | Some text \<Rightarrow> Inl TypeError)"

text \<open>The loop of line 159 over the rows that are left.\<close>

fun main_loop :: "server \<Rightarrow> credentials \<Rightarrow> SocialNetwork \<Rightarrow> (nat \<times> row) list \<Rightarrow> run_state
    \<Rightarrow> exn + run_state" where
  "main_loop srv cred social_network [] st = Inr st"
| "main_loop srv cred social_network (ir # rest) st =
     (case main_row srv cred social_network ir st of
        Inl e \<Rightarrow> Inl e
      | Inr st' \<Rightarrow> main_loop srv cred social_network rest st')"

text \<open>
  Lines 153 to 174 of \<open>main\<close>, from the table as it was read: the URL column is set to the
  empty string, the counters to zero, and the loop runs over the rows.
\<close>

definition main :: "server \<Rightarrow> credentials \<Rightarrow> SocialNetwork \<Rightarrow> dataframe \<Rightarrow> event list
    \<Rightarrow> exn + run_state" where
  "main srv cred social_network df h =
     (let data_posts0 = set_column (get_url_column social_network) (PyStr []) df
      in main_loop srv cred social_network (enumerate 0 data_posts0)
           \<lparr>data_posts = data_posts0, search_success = 0, insuficient_text = 0,
            console = [], history = h, stores = []\<rparr>)"

text \<open>
  What the message of a row says of its cells: line 170 wrote the URL of an
  \<open>UrlFound\<close> into the URL column, and the two other branches wrote nothing.
\<close>

fun row_after :: "pystr \<Rightarrow> message \<Rightarrow> row \<Rightarrow> row" where
  "row_after column (UrlFound n url) r = AList.update column url r"
| "row_after column m r = r"

text \<open>Line 178: the number of posts searched without success, as the summary prints it.\<close>

definition not_found :: "run_state \<Rightarrow> int" where
  "not_found st = int (length (data_posts st)) - search_success st - insuficient_text st"

section \<open>Well-formed responses, and example inputs\<close>

text \<open>
  The links of a body that is as the search API documents it: a JSON object whose member
  \<open>items\<close> is absent or an array of objects, each with a member \<open>link\<close> that is a string.
  Any other body has none.
\<close>

fun link_of :: "pyval \<Rightarrow> pystr option" where
  "link_of (PyDict d) =
     (case map_of d (str_of ''link'') of Some (PyStr link) \<Rightarrow> Some link | _ \<Rightarrow> None)"
| "link_of v = None"

fun links_of :: "pyval \<Rightarrow> pystr list option" where
  "links_of (PyDict d) =
     (case map_of d (str_of ''items'') of
        None \<Rightarrow> Some []
      | Some (PyList its) \<Rightarrow> those (map link_of its)
      | Some v \<Rightarrow> None)"
| "links_of v = None"

text \<open>
  A result of a request that lets \<open>google_search\<close> finish the attempt without an
  exception: there is a response, and it has an error status (the body is not read then)
  or a body that is as documented.
\<close>

definition all_linked :: "http_result \<Rightarrow> bool" where
  "all_linked r =
     (case r of
        NoResponse \<Rightarrow> False
      | Response st b \<Rightarrow>
          raise_for_status st \<or>
          (case b of Malformed \<Rightarrow> False | Json v \<Rightarrow> links_of v \<noteq> None))"

text \<open>
  The history that rate-limited attempts leave: after each request, the sleep of
  \<open>2 ** attempt\<close> seconds.
\<close>

definition backoff :: "params \<Rightarrow> nat list \<Rightarrow> event list" where
  "backoff ps as = concat (map (\<lambda>attempt. [Get ps, Sleep (2 ^ attempt)]) as)"

text \<open>The requests and the sleeps of a history, each in order.\<close>

fun requests_of :: "event list \<Rightarrow> params list" where
  "requests_of [] = []"
| "requests_of (Get ps # es) = ps # requests_of es"
| "requests_of (Sleep n # es) = requests_of es"

fun sleeps_of :: "event list \<Rightarrow> nat list" where
  "sleeps_of [] = []"
| "sleeps_of (Get ps # es) = sleeps_of es"
| "sleeps_of (Sleep n # es) = n # sleeps_of es"

text \<open>A server whose response does not depend on what happened before the request.\<close>

definition deterministic :: "server \<Rightarrow> bool" where
  "deterministic srv = (\<forall>h h' ps. srv h ps = srv h' ps)"

definition cred0 :: credentials where
  "cred0 = \<lparr>API_KEY = str_of ''k'', CSE_ID = str_of ''c''\<rparr>"

text \<open>Servers: out of reach, always rate limiting, always refusing.\<close>

definition unreachable :: server where
  "unreachable h ps = NoResponse"

definition rate_limited :: server where
  "rate_limited h ps = Response 429 Malformed"

definition forbidden :: server where
  "forbidden h ps = Response 403 Malformed"

text \<open>
  Servers that answer with a success status and a body that is not as documented: not
  JSON; a JSON array; \<open>items\<close> null; an item that is a string; an item without a link; a
  link that is null; a link that is a list of strings.
\<close>

definition garbled :: server where
  "garbled h ps = Response 200 Malformed"

definition not_object :: server where
  "not_object h ps = Response 200 (Json (PyList []))"

definition null_items :: server where
  "null_items h ps = Response 200 (Json (PyDict [(str_of ''items'', PyNone)]))"

definition string_item :: server where
  "string_item h ps =
     Response 200 (Json (PyDict [(str_of ''items'', PyList [PyStr (str_of ''John'')])]))"

definition linkless :: server where
  "linkless h ps =
     Response 200
       (Json (PyDict [(str_of ''items'',
          PyList [PyDict [(str_of ''title'', PyStr (str_of ''John''))]])]))"

definition null_link :: server where
  "null_link h ps =
     Response 200
       (Json (PyDict [(str_of ''items'', PyList [PyDict [(str_of ''link'', PyNone)]])]))"

definition list_link :: server where
  "list_link h ps =
     Response 200
       (Json (PyDict [(str_of ''items'',
          PyList [PyDict [(str_of ''link'',
            PyList [PyStr (str_of ''https://www.facebook.com/''),
                    PyStr (str_of ''posts/'')])]])]))"

text \<open>
  A stub server: four results for a query that mentions a cat in its first 22 characters,
  and a body without \<open>items\<close> for any other query.
\<close>

definition fb_items :: "pyval list" where
  "fb_items =
     [PyDict [(str_of ''title'', PyStr (str_of ''John'')),
              (str_of ''link'', PyStr (str_of ''https://www.facebook.com/johndoe''))],
      PyDict [(str_of ''link'', PyStr (str_of ''https://m.facebook.com/posts/123''))],
      PyDict [(str_of ''link'', PyStr (str_of ''https://www.facebook.com/posts/123''))],
      PyDict [(str_of ''link'', PyStr (str_of ''https://www.facebook.com/videos/7''))]]"

definition stub :: server where
  "stub h ps =
     Response 200
       (Json (PyDict (if str_in (str_of ''cat'') (take 22 (q ps))
                      then [(str_of ''items'', PyList fb_items)] else [])))"

text \<open>
  A table of three posts with the columns \<open>Caption\<close>, \<open>URL\<close> and \<open>Likes\<close>: a caption of 50
  characters, a caption about a cat, and a caption about a dog that ends in an emoji. The
  state in which \<open>main\<close> ends on it with the stub server follows.
\<close>

definition posts :: dataframe where
  "posts =
     [[(str_of ''Caption'', PyStr (replicate 50 97)), (str_of ''URL'', PyStr (str_of ''old'')),
       (str_of ''Likes'', PyInt 3)],
      [(str_of ''Caption'', PyStr (str_of ''cat'' @ replicate 200 97)),
       (str_of ''URL'', PyStr (str_of ''old'')), (str_of ''Likes'', PyInt 14)],
      [(str_of ''Caption'', PyStr (str_of ''dog'' @ replicate 200 98 @ [0x1F600])),
       (str_of ''URL'', PyStr (str_of ''old'')), (str_of ''Likes'', PyInt 15)]]"

definition posts_result :: run_state where
  "posts_result =
     \<lparr>data_posts =
        [[(str_of ''Caption'', PyStr (replicate 50 97)), (str_of ''URL'', PyStr []),
          (str_of ''Likes'', PyInt 3)],
         [(str_of ''Caption'', PyStr (str_of ''cat'' @ replicate 200 97)),
          (str_of ''URL'', PyStr (str_of ''https://www.facebook.com/posts/123'')),
          (str_of ''Likes'', PyInt 14)],
         [(str_of ''Caption'', PyStr (str_of ''dog'' @ replicate 200 98 @ [0x1F600])),
          (str_of ''URL'', PyStr []), (str_of ''Likes'', PyInt 15)]],
      search_success = 1, insuficient_text = 1,
      console =
        [Ignored 1 69, UrlFound 2 (PyStr (str_of ''https://www.facebook.com/posts/123'')),
         UrlNotFound 3],
      history =
        [Get (request_params cred0 (str_of ''site: facebook.com+cat'' @ replicate 200 97) 5),
         Get (request_params cred0 (str_of ''site: facebook.com+dog'' @ replicate 200 98) 5)],
      stores = [1]\<rparr>"

text \<open>
  Two captions at the threshold: 180 letters and an emoji, which is a query of 199
  characters for Facebook, and 181 letters, which is a query of 200. The state before the
  first row of a table that holds them.
\<close>

definition caption_199 :: pystr where
  "caption_199 = replicate 180 97 @ [0x1F600]"

definition caption_200 :: pystr where
  "caption_200 = replicate 181 97"

definition start :: run_state where
  "start =
     \<lparr>data_posts =
        [[(str_of ''Caption'', PyStr caption_199), (str_of ''URL'', PyStr [])],
         [(str_of ''Caption'', PyStr caption_200), (str_of ''URL'', PyStr [])]],
      search_success = 0, insuficient_text = 0, console = [], history = [], stores = []\<rparr>"

section \<open>Strings and the filter\<close>

lemma str_in_iff: "str_in a b \<longleftrightarrow> (\<exists>u v. b = u @ a @ v)"
proof (induction b)
  case Nil
  then show ?case by auto
next
  case (Cons c cs)
  show ?case
  proof
    assume "str_in a (c # cs)"
    then consider "take (length a) (c # cs) = a" | "str_in a cs" by auto
    then show "\<exists>u v. c # cs = u @ a @ v"
    proof cases
      case 1
      then have "c # cs = [] @ a @ drop (length a) (c # cs)"
        by (metis append_Nil append_take_drop_id)
      then show ?thesis by blast
    next
      case 2
      then obtain u v where "cs = u @ a @ v" using Cons.IH by blast
      then have "c # cs = (c # u) @ a @ v" by simp
      then show ?thesis by blast
    qed
  next
    assume "\<exists>u v. c # cs = u @ a @ v"
    then obtain u v where uv: "c # cs = u @ a @ v" by blast
    show "str_in a (c # cs)"
    proof (cases u)
      case Nil
      then have "take (length a) (c # cs) = a" using uv by simp
      then show ?thesis by simp
    next
      case (Cons d u')
      then have "cs = u' @ a @ v" using uv by simp
      then have "str_in a cs" using Cons.IH by blast
      then show ?thesis by simp
    qed
  qed
qed

lemma accepted_iff:
  "accepted sn link \<longleftrightarrow>
     (\<exists>u v. link = u @ get_domain_url sn @ v) \<and>
     (\<exists>s \<in> set (get_valid_substrings sn). \<exists>u v. link = u @ s @ v)"
  by (simp add: accepted_def str_in_iff list_ex_iff)

lemma accepted_nonempty: "accepted sn link \<Longrightarrow> link \<noteq> []"
  by (cases sn) (auto simp: accepted_def str_of_def)

lemma re_sub_bmp:
  "re_sub (CharClass True [(0, 0xFFFF)]) [] s = filter (\<lambda>c. c \<le> 0xFFFF) s"
  by (induction s) (simp_all add: class_matches_def)

text \<open>
  C6. For every string, \<open>filter_bmp_characters\<close> removes exactly the characters whose code
  point is above U+FFFF: the result is the string with those characters left out, every
  other character unchanged and in its place among the others.
\<close>

theorem filter_bmp_characters_strips:
  "filter_bmp_characters s = strip_non_bmp s"
  unfolding filter_bmp_characters_def strip_non_bmp_def by (rule re_sub_bmp)

section \<open>The search\<close>

lemma any_in_str:
  "any_in subs (PyStr link) = Inr (list_ex (\<lambda>substring. str_in substring link) subs)"
  by (induction subs) simp_all

lemma link_matches_str: "link_matches sn (PyStr link) = Inr (accepted sn link)"
  by (simp add: link_matches_def accepted_def any_in_str)

lemma link_of_SomeD:
  "link_of v = Some link \<Longrightarrow> \<exists>d. v = PyDict d \<and> map_of d (str_of ''link'') = Some (PyStr link)"
  by (cases v) (auto split: option.splits pyval.splits)

lemma scan_itens_links:
  "those (map link_of itens) = Some links \<Longrightarrow>
   scan_itens sn itens =
     Inr (PyStr (case find (accepted sn) links of None \<Rightarrow> [] | Some link \<Rightarrow> link))"
proof (induction itens arbitrary: links)
  case Nil
  then show ?case by simp
next
  case (Cons item itens)
  from Cons.prems obtain link rest where
    l: "link_of item = Some link" and r: "those (map link_of itens) = Some rest" and
    ls: "links = link # rest"
    by (auto split: option.splits)
  from link_of_SomeD[OF l] obtain d where
    d: "item = PyDict d" "map_of d (str_of ''link'') = Some (PyStr link)"
    by blast
  show ?case using d ls Cons.IH[OF r] by (simp add: link_matches_str)
qed

lemma links_of_SomeD:
  "links_of v = Some links \<Longrightarrow>
   \<exists>d. v = PyDict d \<and>
     ((map_of d (str_of ''items'') = None \<and> links = []) \<or>
      (\<exists>its. map_of d (str_of ''items'') = Some (PyList its) \<and>
             those (map link_of its) = Some links))"
  by (cases v) (auto split: option.splits pyval.splits)

lemma read_results_links:
  assumes "links_of v = Some links"
  shows "read_results sn v =
     Inr (PyStr (case find (accepted sn) links of None \<Rightarrow> [] | Some link \<Rightarrow> link))"
proof -
  from links_of_SomeD[OF assms] obtain d where d: "v = PyDict d" and
    c: "(map_of d (str_of ''items'') = None \<and> links = []) \<or>
        (\<exists>its. map_of d (str_of ''items'') = Some (PyList its) \<and>
               those (map link_of its) = Some links)"
    by blast
  from c show ?thesis
  proof
    assume "map_of d (str_of ''items'') = None \<and> links = []"
    then show ?thesis using d by (simp add: read_results_def)
  next
    assume "\<exists>its. map_of d (str_of ''items'') = Some (PyList its) \<and>
               those (map link_of its) = Some links"
    then obtain its where "map_of d (str_of ''items'') = Some (PyList its)"
      and "those (map link_of its) = Some links"
      by blast
    then show ?thesis using d scan_itens_links[of its links sn] by (simp add: read_results_def)
  qed
qed

lemma find_accepted:
  "(case find (accepted sn) links of None \<Rightarrow> [] | Some link \<Rightarrow> link) = url \<Longrightarrow>
   url = [] \<or> accepted sn url"
  by (auto split: option.splits dest: find_Some_iff[THEN iffD1])

lemma backoff_Cons: "backoff ps (a # as) = [Get ps, Sleep (2 ^ a)] @ backoff ps as"
  by (simp add: backoff_def)

lemma requests_of_backoff: "requests_of (backoff ps as) = replicate (length as) ps"
  by (induction as) (simp_all add: backoff_Cons, simp add: backoff_def)

lemma sleeps_of_backoff: "sleeps_of (backoff ps as) = map (\<lambda>attempt. 2 ^ attempt) as"
  by (induction as) (simp_all add: backoff_Cons, simp add: backoff_def)

lemma attempts_skip_429:
  "(\<forall>i<length as. \<exists>b. srv (h @ backoff ps (take i as)) ps = Response 429 b) \<Longrightarrow>
   attempts srv ps sn (as @ rest) h = attempts srv ps sn rest (h @ backoff ps as)"
proof (induction as arbitrary: h)
  case Nil
  then show ?case by (simp add: backoff_def)
next
  case (Cons a as)
  from Cons.prems have "\<exists>b. srv (h @ backoff ps (take 0 (a # as))) ps = Response 429 b"
    by blast
  then obtain b where first: "srv h ps = Response 429 b"
    by (auto simp: backoff_def)
  have later: "\<forall>i<length as. \<exists>b. srv ((h @ [Get ps, Sleep (2 ^ a)]) @ backoff ps (take i as)) ps
      = Response 429 b"
  proof (intro allI impI)
    fix i assume "i < length as"
    then have "Suc i < length (a # as)" by simp
    with Cons.prems have "\<exists>b. srv (h @ backoff ps (take (Suc i) (a # as))) ps = Response 429 b"
      by blast
    then show "\<exists>b. srv ((h @ [Get ps, Sleep (2 ^ a)]) @ backoff ps (take i as)) ps = Response 429 b"
      by (simp add: backoff_Cons)
  qed
  show ?case
    using first Cons.IH[OF later] by (simp add: raise_for_status_def backoff_Cons)
qed

lemma search_skip_429:
  assumes "k \<le> n"
    and "\<forall>j<k. \<exists>b. srv (h @ backoff ps [0..<j]) ps = Response 429 b"
  shows "attempts srv ps sn [0..<n] h = attempts srv ps sn [k..<n] (h @ backoff ps [0..<k])"
proof -
  have a: "\<forall>i<length [0..<k]. \<exists>b. srv (h @ backoff ps (take i [0..<k])) ps = Response 429 b"
    using assms(2) by (simp add: take_upt)
  have "[0..<n] = [0..<k] @ [k..<n]"
    using assms(1) upt_add_eq_append [of 0 k "n - k"] by simp
  then show ?thesis
    using attempts_skip_429 [where as = "[0..<k]" and rest = "[k..<n]" and srv = srv
        and h = h and ps = ps and sn = sn, OF a]
    by simp
qed

lemma attempts_ok:
  "(\<forall>h. all_linked (srv h ps)) \<Longrightarrow>
   \<exists>url. fst (attempts srv ps sn as h) = Inr (PyStr url) \<and> (url = [] \<or> accepted sn url)"
proof (induction as arbitrary: h)
  case Nil
  then show ?case by simp
next
  case (Cons a as)
  have lk: "all_linked (srv h ps)" using Cons.prems by blast
  show ?case
  proof (cases "srv h ps")
    case NoResponse
    then show ?thesis using lk by (simp add: all_linked_def)
  next
    case (Response st b)
    show ?thesis
    proof (cases "raise_for_status st")
      case True
      then show ?thesis using Response Cons.IH[OF Cons.prems] by simp
    next
      case False
      then obtain v where b: "b = Json v"
        using lk Response by (cases b) (simp_all add: all_linked_def)
      obtain links where "links_of v = Some links"
        using lk Response False b by (auto simp: all_linked_def)
      from read_results_links[OF this, of sn] find_accepted[of sn links]
      show ?thesis using Response False b by simp
    qed
  qed
qed

text \<open>
  C10. For every server, query and network, \<open>google_search\<close> with \<open>retries = 0\<close> returns the
  empty string and leaves the history as it was: no request is sent.
\<close>

theorem google_search_zero_retries:
  "google_search srv cred query social_network max_results 0 h = (Inr (PyStr []), h)"
  by (simp add: google_search_def)

text \<open>
  C3. When each of the attempts is answered with status 429, \<open>google_search\<close> with
  \<open>retries = r\<close> sends exactly \<open>r\<close> requests, sleeps \<open>2^0, ..., 2^(r-1)\<close> seconds, one
  sleep after each request, and returns the empty string. When the first attempt is
  answered with an error status other than 429, it returns the empty string after that one
  request.
\<close>

theorem google_search_backoff:
  "((\<forall>j<nat retries. \<exists>b. srv (h @ backoff (request_params cred query max_results) [0..<j])
        (request_params cred query max_results) = Response 429 b) \<longrightarrow>
    google_search srv cred query social_network max_results retries h =
      (Inr (PyStr []), h @ backoff (request_params cred query max_results) [0..<nat retries]) \<and>
    requests_of (backoff (request_params cred query max_results) [0..<nat retries]) =
      replicate (nat retries) (request_params cred query max_results) \<and>
    sleeps_of (backoff (request_params cred query max_results) [0..<nat retries]) =
      map (\<lambda>attempt. 2 ^ attempt) [0..<nat retries]) \<and>
   (0 < retries \<and> srv h (request_params cred query max_results) = Response st b \<and>
    raise_for_status st \<and> st \<noteq> 429 \<longrightarrow>
    google_search srv cred query social_network max_results retries h =
      (Inr (PyStr []), h @ [Get (request_params cred query max_results)]))"
proof (intro conjI impI)
  assume "\<forall>j<nat retries. \<exists>b. srv (h @ backoff (request_params cred query max_results) [0..<j])
        (request_params cred query max_results) = Response 429 b"
  from search_skip_429 [where srv = srv and h = h and sn = social_network
      and ps = "request_params cred query max_results" and k = "nat retries"
      and n = "nat retries", OF order_refl this]
  show "google_search srv cred query social_network max_results retries h =
      (Inr (PyStr []), h @ backoff (request_params cred query max_results) [0..<nat retries])"
    by (simp add: google_search_def)
next
  show "requests_of (backoff (request_params cred query max_results) [0..<nat retries]) =
      replicate (nat retries) (request_params cred query max_results)"
    by (simp add: requests_of_backoff)
next
  show "sleeps_of (backoff (request_params cred query max_results) [0..<nat retries]) =
      map (\<lambda>attempt. 2 ^ attempt) [0..<nat retries]"
    by (simp add: sleeps_of_backoff)
next
  assume a: "0 < retries \<and> srv h (request_params cred query max_results) = Response st b \<and>
    raise_for_status st \<and> st \<noteq> 429"
  then show "google_search srv cred query social_network max_results retries h =
      (Inr (PyStr []), h @ [Get (request_params cred query max_results)])"
    unfolding google_search_def by (simp add: upt_conv_Cons)
qed

theorem google_search_backoff_witness:
  "google_search rate_limited cred0 (str_of ''x'') FACEBOOK 5 3 [] =
     (Inr (PyStr []), [Get (request_params cred0 (str_of ''x'') 5), Sleep 1,
               Get (request_params cred0 (str_of ''x'') 5), Sleep 2,
               Get (request_params cred0 (str_of ''x'') 5), Sleep 4]) \<and>
   (0::int) < 5 \<and> forbidden [] (request_params cred0 (str_of ''x'') 5) = Response 403 Malformed \<and>
   raise_for_status 403 \<and> (403::nat) \<noteq> 429 \<and>
   google_search forbidden cred0 (str_of ''x'') FACEBOOK 5 5 [] =
     (Inr (PyStr []), [Get (request_params cred0 (str_of ''x'') 5)])"
  using google_search_backoff [of 3 rate_limited "[]" cred0 "str_of ''x''" 5 FACEBOOK]
    google_search_backoff [of 5 forbidden "[]" cred0 "str_of ''x''" 5 FACEBOOK 403 Malformed]
  by (simp add: rate_limited_def forbidden_def raise_for_status_def backoff_def upt_conv_Cons)

text \<open>
  C4. When an attempt is answered with a success status and a result list whose items have
  the links \<open>links\<close> (the attempts before it, if any, having been rate limited),
  \<open>google_search\<close> returns the first of the links that contains the domain URL and one of
  the valid substrings, and the empty string when there is none; that request is the last
  one.
\<close>

theorem google_search_first_accepted:
  assumes "k < nat retries"
    and "\<forall>j<k. \<exists>b. srv (h @ backoff (request_params cred query max_results) [0..<j])
           (request_params cred query max_results) = Response 429 b"
    and "srv (h @ backoff (request_params cred query max_results) [0..<k])
           (request_params cred query max_results) = Response st (Json search_results)"
    and "\<not> raise_for_status st"
    and "links_of search_results = Some links"
  shows "google_search srv cred query social_network max_results retries h =
     (Inr (PyStr (case find (accepted social_network) links of
                    None \<Rightarrow> [] | Some link \<Rightarrow> link)),
      h @ backoff (request_params cred query max_results) [0..<k] @
        [Get (request_params cred query max_results)])"
proof -
  have "k \<le> nat retries" using assms(1) by simp
  from search_skip_429 [where srv = srv and h = h and sn = social_network
      and ps = "request_params cred query max_results" and k = k
      and n = "nat retries", OF this assms(2)]
  have "google_search srv cred query social_network max_results retries h =
        attempts srv (request_params cred query max_results) social_network [k..<nat retries]
          (h @ backoff (request_params cred query max_results) [0..<k])"
    by (simp add: google_search_def)
  also have "[k..<nat retries] = k # [Suc k..<nat retries]"
    using assms(1) by (simp add: upt_conv_Cons)
  finally show ?thesis
    using assms(3,4) read_results_links [OF assms(5), of social_network] by simp
qed

theorem google_search_first_accepted_witness:
  "links_of (PyDict [(str_of ''items'', PyList fb_items)]) =
     Some [str_of ''https://www.facebook.com/johndoe'', str_of ''https://m.facebook.com/posts/123'',
           str_of ''https://www.facebook.com/posts/123'', str_of ''https://www.facebook.com/videos/7''] \<and>
   google_search stub cred0 (str_of ''a cat'') FACEBOOK 5 5 [] =
     (Inr (PyStr (str_of ''https://www.facebook.com/posts/123'')),
      [Get (request_params cred0 (str_of ''a cat'') 5)])"
proof -
  have k: "0 < nat 5" by simp
  have p: "\<forall>j<0. \<exists>b. stub ([] @ backoff (request_params cred0 (str_of ''a cat'') 5) [0..<j])
           (request_params cred0 (str_of ''a cat'') 5) = Response 429 b" by simp
  have s: "stub ([] @ backoff (request_params cred0 (str_of ''a cat'') 5) [0..<0])
      (request_params cred0 (str_of ''a cat'') 5) =
      Response 200 (Json (PyDict [(str_of ''items'', PyList fb_items)]))"
    by (simp add: stub_def request_params_def str_of_def)
  have r: "\<not> raise_for_status 200" by (simp add: raise_for_status_def)
  have t: "links_of (PyDict [(str_of ''items'', PyList fb_items)]) =
     Some [str_of ''https://www.facebook.com/johndoe'', str_of ''https://m.facebook.com/posts/123'',
           str_of ''https://www.facebook.com/posts/123'', str_of ''https://www.facebook.com/videos/7'']"
    by (simp add: fb_items_def str_of_def)
  have f: "(case find (accepted FACEBOOK) [str_of ''https://www.facebook.com/johndoe'', str_of ''https://m.facebook.com/posts/123'',
           str_of ''https://www.facebook.com/posts/123'', str_of ''https://www.facebook.com/videos/7''] of None \<Rightarrow> [] | Some link \<Rightarrow> link) = str_of ''https://www.facebook.com/posts/123''"
    by (simp add: accepted_def str_of_def)
  show ?thesis
    using google_search_first_accepted [where k = 0 and retries = 5 and srv = stub
        and h = "[]" and cred = cred0 and query = "str_of ''a cat''" and max_results = 5
        and st = 200 and search_results = "PyDict [(str_of ''items'', PyList fb_items)]"
        and social_network = FACEBOOK, OF k p s r t] f t
    by (simp add: backoff_def)
qed

text \<open>
  C2, as the specification states it, fails. With a success status on the first attempt,
  each of these leaves \<open>google_search\<close> as an exception: a request that gets no response,
  a body that is not JSON, a body that is a JSON array, \<open>items\<close> that is null, an item
  that is a string, an item without a link, and a link that is null. A link that is a
  list holding the domain URL and a valid substring is returned as it is, which is
  neither a URL string nor the empty string.
\<close>

theorem google_search_raises:
  "fst (google_search unreachable cred0 (str_of ''x'') FACEBOOK 5 5 []) = Inl ConnectionError \<and>
   fst (google_search garbled cred0 (str_of ''x'') FACEBOOK 5 5 []) = Inl JSONDecodeError \<and>
   fst (google_search not_object cred0 (str_of ''x'') FACEBOOK 5 5 []) = Inl AttributeError \<and>
   fst (google_search null_items cred0 (str_of ''x'') FACEBOOK 5 5 []) = Inl TypeError \<and>
   fst (google_search string_item cred0 (str_of ''x'') FACEBOOK 5 5 []) = Inl TypeError \<and>
   fst (google_search linkless cred0 (str_of ''x'') FACEBOOK 5 5 []) =
     Inl (KeyError (str_of ''link'')) \<and>
   fst (google_search null_link cred0 (str_of ''x'') FACEBOOK 5 5 []) = Inl TypeError \<and>
   fst (google_search list_link cred0 (str_of ''x'') FACEBOOK 5 5 []) =
     Inr (PyList [PyStr (str_of ''https://www.facebook.com/''), PyStr (str_of ''posts/'')])"
  by (simp add: google_search_def unreachable_def garbled_def not_object_def null_items_def
      string_item_def linkless_def null_link_def list_link_def upt_conv_Cons
      raise_for_status_def read_results_def link_matches_def str_of_def)

text \<open>
  C2, amended. When every request gets a response, and every response with a success
  status has a body that is a JSON object whose member \<open>items\<close> is absent or an array of
  objects, each with a member \<open>link\<close> that is a string, \<open>google_search\<close> returns the empty
  string or an accepted URL string, and raises nothing.
\<close>

theorem google_search_no_exception:
  "(\<forall>h'. all_linked (srv h' (request_params cred query max_results))) \<Longrightarrow>
   \<exists>url. fst (google_search srv cred query social_network max_results retries h) =
           Inr (PyStr url) \<and>
         (url = [] \<or> accepted social_network url)"
  unfolding google_search_def by (rule attempts_ok)

theorem google_search_no_exception_witness:
  "fst (google_search stub cred0 (str_of ''a cat'') FACEBOOK 5 5 []) =
     Inr (PyStr (str_of ''https://www.facebook.com/posts/123'')) \<and>
   accepted FACEBOOK (str_of ''https://www.facebook.com/posts/123'')"
proof -
  have a: "\<forall>h'. all_linked (stub h' (request_params cred0 (str_of ''a cat'') 5))"
    by (simp add: all_linked_def stub_def request_params_def fb_items_def str_of_def
        raise_for_status_def)
  have e: "fst (google_search stub cred0 (str_of ''a cat'') FACEBOOK 5 5 []) =
     Inr (PyStr (str_of ''https://www.facebook.com/posts/123''))"
    by (simp add: google_search_def stub_def request_params_def fb_items_def str_of_def
        raise_for_status_def upt_conv_Cons read_results_def link_matches_str accepted_def)
  from google_search_no_exception [where srv = stub and cred = cred0
      and query = "str_of ''a cat''" and max_results = 5 and social_network = FACEBOOK
      and retries = 5 and h = "[]", OF a] e
  show ?thesis by (auto simp: str_of_def)
qed

section \<open>The loop over the rows\<close>

lemma main_row_caption:
  "main_row srv cred sn (i, r) st = Inr st' \<Longrightarrow>
   \<exists>caption. map_of r (get_text_column sn) = Some (PyStr caption)"
  by (simp add: main_row_def split: option.splits pyval.splits)

lemma main_row_step:
  assumes "main_row srv cred sn (i, r) st = Inr st'"
  shows "\<exists>m. console st' = console st @ [m] \<and>
       search_success st' = search_success st + (if is_found m then 1 else 0) \<and>
       insuficient_text st' = insuficient_text st + (if is_ignored m then 1 else 0) \<and>
       data_posts st' =
         (data_posts st)[i := row_after (get_url_column sn) m (data_posts st ! i)] \<and>
       stores st' = stores st @ (if is_found m then [i] else [])"
proof -
  obtain caption where Some: "map_of r (get_text_column sn) = Some (PyStr caption)"
    using main_row_caption[OF assms] by blast
  show ?thesis
  proof (cases "length (query_of sn caption) < MIN_TEXT_LENGTH")
    case True
    then have "st' = st\<lparr>console := console st @ [Ignored (i + 1) (length (query_of sn caption))],
                    insuficient_text := insuficient_text st + 1\<rparr>"
      using assms Some by (simp add: main_row_def)
    then show ?thesis by simp
  next
    case False
    obtain res h where g: "google_search srv cred (query_of sn caption) sn 5 5 (history st) = (res, h)"
      by (cases "google_search srv cred (query_of sn caption) sn 5 5 (history st)")
    show ?thesis
    proof (cases res)
      case (Inl e)
      then show ?thesis using assms Some False g by (simp add: main_row_def)
    next
      case (Inr url)
      show ?thesis
      proof (cases "\<not> truthy url")
        case True
        then have "st' = st\<lparr>console := console st @ [UrlNotFound (i + 1)], history := h\<rparr>"
          using assms Some False g Inr by (simp add: main_row_def)
        then show ?thesis by simp
      next
        case nonempty: False
        then have "st' = st\<lparr>data_posts := set_at i (get_url_column sn) url (data_posts st),
                           search_success := search_success st + 1,
                           console := console st @ [UrlFound (i + 1) url],
                           history := h,
                           stores := stores st @ [i]\<rparr>"
          using assms Some False g Inr by (simp add: main_row_def)
        then show ?thesis by (simp add: set_at_def)
      qed
    qed
  qed
qed

lemma count_messages:
  "length ms = length (filter is_found ms) + length (filter is_ignored ms)
     + length (filter is_not_found ms)"
proof (induction ms)
  case Nil
  then show ?case by simp
next
  case (Cons m ms)
  then show ?case by (cases m) simp_all
qed


lemma main_loop_rows:
  assumes "main_loop srv cred sn (enumerate k rs) st = Inr st'"
  shows "\<exists>ms. length ms = length rs \<and> console st' = console st @ ms \<and>
       search_success st' = search_success st + int (length (filter is_found ms)) \<and>
       insuficient_text st' = insuficient_text st + int (length (filter is_ignored ms)) \<and>
       length (data_posts st') = length (data_posts st) \<and>
       (\<forall>i<length (data_posts st). data_posts st' ! i =
          (if k \<le> i \<and> i < k + length rs
           then row_after (get_url_column sn) (ms ! (i - k)) (data_posts st ! i)
           else data_posts st ! i)) \<and>
       stores st' = stores st @ filter (\<lambda>i. is_found (ms ! (i - k))) [k..<k + length rs]"
  using assms
proof (induction rs arbitrary: k st)
  case Nil
  then show ?case by auto
next
  case (Cons r rs)
  from Cons.prems obtain st1 where
    step: "main_row srv cred sn (k, r) st = Inr st1" and
    rest: "main_loop srv cred sn (enumerate (Suc k) rs) st1 = Inr st'"
    by (auto split: sum.splits)
  from main_row_step[OF step] obtain m where m:
    "console st1 = console st @ [m]"
    "search_success st1 = search_success st + (if is_found m then 1 else 0)"
    "insuficient_text st1 = insuficient_text st + (if is_ignored m then 1 else 0)"
    "data_posts st1 = (data_posts st)[k := row_after (get_url_column sn) m (data_posts st ! k)]"
    "stores st1 = stores st @ (if is_found m then [k] else [])"
    by blast
  from Cons.IH[OF rest] obtain ms where ms:
    "length ms = length rs"
    "console st' = console st1 @ ms"
    "search_success st' = search_success st1 + int (length (filter is_found ms))"
    "insuficient_text st' = insuficient_text st1 + int (length (filter is_ignored ms))"
    "length (data_posts st') = length (data_posts st1)"
    "\<forall>i<length (data_posts st1). data_posts st' ! i =
          (if Suc k \<le> i \<and> i < Suc k + length rs
           then row_after (get_url_column sn) (ms ! (i - Suc k)) (data_posts st1 ! i)
           else data_posts st1 ! i)"
    "stores st' = stores st1 @ filter (\<lambda>i. is_found (ms ! (i - Suc k))) [Suc k..<Suc k + length rs]"
    by blast
  have len: "length (data_posts st1) = length (data_posts st)" using m(4) by simp
  have cells: "\<forall>i<length (data_posts st). data_posts st' ! i =
          (if k \<le> i \<and> i < k + length (r # rs)
           then row_after (get_url_column sn) ((m # ms) ! (i - k)) (data_posts st ! i)
           else data_posts st ! i)"
  proof (intro allI impI)
    fix i assume i: "i < length (data_posts st)"
    then have i1: "i < length (data_posts st1)" using len by simp
    consider "i < k" | "i = k" | "k < i"  by linarith
    then show "data_posts st' ! i =
          (if k \<le> i \<and> i < k + length (r # rs)
           then row_after (get_url_column sn) ((m # ms) ! (i - k)) (data_posts st ! i)
           else data_posts st ! i)"
    proof cases
      case 1
      then show ?thesis using ms(6) i1 m(4) by simp
    next
      case 2
      then show ?thesis using ms(6) i1 m(4) i by simp
    next
      case 3
      then have "(m # ms) ! (i - k) = ms ! (i - Suc k)" by (simp add: nth_Cons')
      moreover have "data_posts st1 ! i = data_posts st ! i" using 3 m(4) by simp
      ultimately show ?thesis using ms(6) i1 3 by auto
    qed
  qed
  have "filter (\<lambda>i. is_found ((m # ms) ! (i - k))) [Suc k..<Suc k + length rs] =
        filter (\<lambda>i. is_found (ms ! (i - Suc k))) [Suc k..<Suc k + length rs]"
    by (rule filter_cong) (auto simp: nth_Cons')
  moreover have "[k..<k + length (r # rs)] = k # [Suc k..<Suc k + length rs]"
    by (simp add: upt_conv_Cons del: upt_Suc)
  ultimately have st: "stores st' = stores st @ filter (\<lambda>i. is_found ((m # ms) ! (i - k))) [k..<k + length (r # rs)]"
    using ms(7) m(5) by (simp del: upt_Suc)
  show ?case
    apply (rule exI[of _ "m # ms"])
    using ms(1,2,3,4,5) m(1,2,3) len cells st by simp
qed

lemma main_result:
  assumes "main srv cred sn df h = Inr st"
  shows "length (console st) = length df"
    and "length (data_posts st) = length df"
    and "search_success st = int (length (filter is_found (console st)))"
    and "insuficient_text st = int (length (filter is_ignored (console st)))"
    and "\<forall>i<length df. data_posts st ! i =
           row_after (get_url_column sn) (console st ! i)
             (AList.update (get_url_column sn) (PyStr []) (df ! i))"
    and "stores st = filter (\<lambda>i. is_found (console st ! i)) [0..<length df]"
proof -
  let ?df0 = "set_column (get_url_column sn) (PyStr []) df"
  let ?st0 = "\<lparr>data_posts = ?df0, search_success = 0, insuficient_text = 0,
            console = [], history = h, stores = []\<rparr>"
  have "main_loop srv cred sn (enumerate 0 ?df0) ?st0 = Inr st"
    using assms by (simp add: main_def Let_def)
  from main_loop_rows[OF this] obtain ms where ms:
    "length ms = length ?df0" "console st = console ?st0 @ ms"
    "search_success st = search_success ?st0 + int (length (filter is_found ms))"
    "insuficient_text st = insuficient_text ?st0 + int (length (filter is_ignored ms))"
    "length (data_posts st) = length (data_posts ?st0)"
    "\<forall>i<length (data_posts ?st0). data_posts st ! i =
          (if 0 \<le> i \<and> i < 0 + length ?df0
           then row_after (get_url_column sn) (ms ! (i - 0)) (data_posts ?st0 ! i)
           else data_posts ?st0 ! i)"
    "stores st = stores ?st0 @ filter (\<lambda>i. is_found (ms ! (i - 0))) [0..<0 + length ?df0]"
    by blast
  have l: "length ?df0 = length df" by (simp add: set_column_def)
  have c: "console st = ms" using ms(2) by simp
  show "length (console st) = length df" using c ms(1) l by simp
  show "length (data_posts st) = length df" using ms(5) l by simp
  show "search_success st = int (length (filter is_found (console st)))" using ms(3) c by simp
  show "insuficient_text st = int (length (filter is_ignored (console st)))" using ms(4) c by simp
  show "\<forall>i<length df. data_posts st ! i =
           row_after (get_url_column sn) (console st ! i)
             (AList.update (get_url_column sn) (PyStr []) (df ! i))"
    using ms(6) c l by (simp add: set_column_def)
  show "stores st = filter (\<lambda>i. is_found (console st ! i)) [0..<length df]"
    using ms(7) c l by simp
qed

lemma row_after_update:
  "\<exists>v. row_after c m (AList.update c (PyStr []) r) = AList.update c v r"
  by (cases m) (auto intro: exI[of _ "PyStr []"])

lemma map_of_row_after_other:
  "c' \<noteq> c \<Longrightarrow> map_of (row_after c m (AList.update c (PyStr []) r)) c' = map_of r c'"
  by (cases m) (simp_all add: update_conv')


lemma reset_row_after:
  "AList.update c (PyStr []) (row_after c m (AList.update c (PyStr []) r)) = AList.update c (PyStr []) r"
  by (cases m) simp_all

section \<open>The example run\<close>

lemma filter_bmp_append:
  "filter_bmp_characters (a @ b) = filter_bmp_characters a @ filter_bmp_characters b"
  by (simp add: filter_bmp_characters_def re_sub_bmp)

lemma filter_bmp_replicate:
  "c \<le> 0xFFFF \<Longrightarrow> filter_bmp_characters (replicate n c) = replicate n c"
  by (simp add: filter_bmp_characters_def re_sub_bmp)

lemma filter_bmp_Cons:
  "filter_bmp_characters (c # cs) =
     (if c \<le> 0xFFFF then c # filter_bmp_characters cs else filter_bmp_characters cs)"
  by (simp add: filter_bmp_characters_def class_matches_def)

lemma filter_bmp_Nil: "filter_bmp_characters [] = []"
  by (simp add: filter_bmp_characters_def)

lemma query_of_short: "query_of FACEBOOK (replicate 50 97) = str_of ''site: facebook.com+'' @ replicate 50 97"
  by (simp add: query_of_def filter_bmp_replicate str_of_def)

lemma query_of_cat: "query_of FACEBOOK (str_of ''cat'' @ replicate 200 97) = str_of ''site: facebook.com+cat'' @ replicate 200 97"
  by (simp add: query_of_def filter_bmp_replicate filter_bmp_append filter_bmp_Cons filter_bmp_Nil str_of_def)

lemma query_of_dog: "query_of FACEBOOK (str_of ''dog'' @ replicate 200 98 @ [0x1F600]) = str_of ''site: facebook.com+dog'' @ replicate 200 98"
  by (simp add: query_of_def filter_bmp_replicate filter_bmp_append filter_bmp_Cons filter_bmp_Nil str_of_def)

lemma search_cat: "google_search stub cred0 (str_of ''site: facebook.com+cat'' @ replicate 200 97) FACEBOOK 5 5 h
   = (Inr (PyStr (str_of ''https://www.facebook.com/posts/123'')), h @ [Get (request_params cred0 (str_of ''site: facebook.com+cat'' @ replicate 200 97) 5)])"
  by (simp add: google_search_def stub_def request_params_def fb_items_def str_of_def
        raise_for_status_def upt_conv_Cons read_results_def link_matches_str accepted_def)

lemma search_dog: "google_search stub cred0 (str_of ''site: facebook.com+dog'' @ replicate 200 98) FACEBOOK 5 5 h
   = (Inr (PyStr []), h @ [Get (request_params cred0 (str_of ''site: facebook.com+dog'' @ replicate 200 98) 5)])"
  by (simp add: google_search_def stub_def request_params_def fb_items_def str_of_def
        raise_for_status_def upt_conv_Cons read_results_def link_matches_str accepted_def)


lemma main_posts: "main stub cred0 FACEBOOK posts [] = Inr posts_result"
  by (simp add: main_def posts_def posts_result_def set_column_def main_row_def Let_def
      query_of_short query_of_cat query_of_dog search_cat search_dog MIN_TEXT_LENGTH_def set_at_def)
     (simp add: str_of_def)

section \<open>The run as a whole\<close>

text \<open>
  C1. In every run of the loop that reaches the summary, each row has printed exactly one
  of the three messages, the counter of found URLs and the counter of short texts are the
  numbers of their messages, the number that line 178 derives by subtraction is the
  number of not-found messages, and the three add up to the number of rows.
\<close>

theorem main_counts_reconcile:
  assumes "main srv cred social_network df h = Inr st"
  shows "search_success st + insuficient_text st + not_found st = int (length df) \<and>
         length (console st) = length df \<and>
         search_success st = int (length (filter is_found (console st))) \<and>
         insuficient_text st = int (length (filter is_ignored (console st))) \<and>
         not_found st = int (length (filter is_not_found (console st)))"
proof -
  note r = main_result[OF assms]
  have "int (length (console st)) =
        int (length (filter is_found (console st))) + int (length (filter is_ignored (console st)))
          + int (length (filter is_not_found (console st)))"
    using count_messages[of "console st"] by linarith
  then show ?thesis using r(1,2,3,4) by (simp add: not_found_def)
qed

theorem main_counts_reconcile_witness:
  "search_success posts_result + insuficient_text posts_result + not_found posts_result =
     int (length posts) \<and>
   search_success posts_result = 1 \<and> insuficient_text posts_result = 1 \<and>
   not_found posts_result = 1 \<and> length (console posts_result) = 3"
  using main_counts_reconcile [OF main_posts]
  by (simp add: posts_def posts_result_def)

text \<open>
  C8. The table after the run has the rows of the input in their order: row \<open>i\<close> is row \<open>i\<close>
  of the input with the URL column assigned, every other column has the cell it had,
  and line 170 assigns to each row at most once.
\<close>

theorem main_rows_preserved:
  assumes "main srv cred social_network df h = Inr st"
  shows "length (data_posts st) = length df \<and>
         (\<forall>i<length df. \<exists>v. data_posts st ! i =
            AList.update (get_url_column social_network) v (df ! i)) \<and>
         (\<forall>i<length df. \<forall>column. column \<noteq> get_url_column social_network \<longrightarrow>
            map_of (data_posts st ! i) column = map_of (df ! i) column) \<and>
         distinct (stores st) \<and> set (stores st) \<subseteq> {..<length df}"
proof -
  note r = main_result[OF assms]
  have a: "\<forall>i<length df. \<exists>v. data_posts st ! i =
            AList.update (get_url_column social_network) v (df ! i)"
    using r(5) row_after_update by metis
  have b: "\<forall>i<length df. \<forall>column. column \<noteq> get_url_column social_network \<longrightarrow>
            map_of (data_posts st ! i) column = map_of (df ! i) column"
    using r(5) by (simp add: map_of_row_after_other)
  have c: "distinct (stores st)" using r(6) by simp
  have d: "set (stores st) \<subseteq> {..<length df}" using r(6) by auto
  show ?thesis using r(2) a b c d by blast
qed

theorem main_rows_preserved_witness:
  "length (data_posts posts_result) = length posts \<and>
   map_of (data_posts posts_result ! 1) (str_of ''Likes'') = map_of (posts ! 1) (str_of ''Likes'') \<and>
   map_of (data_posts posts_result ! 1) (str_of ''Caption'') =
     map_of (posts ! 1) (str_of ''Caption'') \<and>
   data_posts posts_result ! 1 =
     AList.update (str_of ''URL'') (PyStr (str_of ''https://www.facebook.com/posts/123''))
       (posts ! 1) \<and>
   stores posts_result = [1] \<and> distinct (stores posts_result)"
proof -
  have p: "length (data_posts posts_result) = length posts \<and>
         (\<forall>i<length posts. \<exists>v. data_posts posts_result ! i =
            AList.update (get_url_column FACEBOOK) v (posts ! i)) \<and>
         (\<forall>i<length posts. \<forall>column. column \<noteq> get_url_column FACEBOOK \<longrightarrow>
            map_of (data_posts posts_result ! i) column = map_of (posts ! i) column) \<and>
         distinct (stores posts_result) \<and> set (stores posts_result) \<subseteq> {..<length posts}"
    by (rule main_rows_preserved [OF main_posts])
  have l: "1 < length posts" by (simp add: posts_def)
  have "str_of ''Likes'' \<noteq> get_url_column FACEBOOK" by (simp add: str_of_def)
  then have a: "map_of (data_posts posts_result ! 1) (str_of ''Likes'') =
      map_of (posts ! 1) (str_of ''Likes'')"
    using p l by blast
  have "str_of ''Caption'' \<noteq> get_url_column FACEBOOK" by (simp add: str_of_def)
  then have b: "map_of (data_posts posts_result ! 1) (str_of ''Caption'') =
      map_of (posts ! 1) (str_of ''Caption'')"
    using p l by blast
  have c: "data_posts posts_result ! 1 =
     AList.update (str_of ''URL'') (PyStr (str_of ''https://www.facebook.com/posts/123''))
       (posts ! 1)"
    by (simp add: posts_def posts_result_def str_of_def)
  have d: "stores posts_result = [1]" by (simp add: posts_result_def)
  show ?thesis using p a b c d by simp
qed



lemma attempts_deterministic:
  "deterministic srv \<Longrightarrow> fst (attempts srv ps sn as h) = fst (attempts srv ps sn as h2)"
proof (induction as arbitrary: h h2)
  case Nil
  then show ?case by simp
next
  case (Cons a as)
  have same: "srv h ps = srv h2 ps" using Cons.prems by (simp add: deterministic_def)
  show ?case
  proof (cases "srv h2 ps")
    case NoResponse
    then show ?thesis using same by simp
  next
    case (Response st b)
    then show ?thesis
      using same Cons.IH[OF Cons.prems, of "h @ [Get ps, Sleep (2 ^ a)]" "h2 @ [Get ps, Sleep (2 ^ a)]"]
      by (cases b) simp_all
  qed
qed

lemma main_row_history:
  assumes "deterministic srv" and "main_row srv cred sn (i, r) st = Inr st'"
  shows "\<exists>h'. main_row srv cred sn (i, r) (st\<lparr>history := h2\<rparr>) = Inr (st'\<lparr>history := h'\<rparr>)"
proof -
  obtain caption where Some: "map_of r (get_text_column sn) = Some (PyStr caption)"
    using main_row_caption[OF assms(2)] by blast
  show ?thesis
  proof (cases "length (query_of sn caption) < MIN_TEXT_LENGTH")
    case True
    then have "st' = st\<lparr>console := console st @ [Ignored (i + 1) (length (query_of sn caption))],
                    insuficient_text := insuficient_text st + 1\<rparr>"
      using assms(2) Some by (simp add: main_row_def)
    then have "main_row srv cred sn (i, r) (st\<lparr>history := h2\<rparr>) = Inr (st'\<lparr>history := h2\<rparr>)"
      using Some True by (simp add: main_row_def)
    then show ?thesis by blast
  next
    case False
    obtain res h where g: "google_search srv cred (query_of sn caption) sn 5 5 (history st) = (res, h)"
      by (cases "google_search srv cred (query_of sn caption) sn 5 5 (history st)")
    obtain res2 h' where g2: "google_search srv cred (query_of sn caption) sn 5 5 h2 = (res2, h')"
      by (cases "google_search srv cred (query_of sn caption) sn 5 5 h2")
    have "fst (google_search srv cred (query_of sn caption) sn 5 5 (history st)) =
          fst (google_search srv cred (query_of sn caption) sn 5 5 h2)"
      unfolding google_search_def by (rule attempts_deterministic[OF assms(1)])
    then have res: "res2 = res" using g g2 by simp
    show ?thesis
    proof (cases res)
      case (Inl e)
      then show ?thesis using assms(2) Some False g by (simp add: main_row_def)
    next
      case (Inr url)
      show ?thesis
      proof (cases "\<not> truthy url")
        case True
        then have "st' = st\<lparr>console := console st @ [UrlNotFound (i + 1)], history := h\<rparr>"
          using assms(2) Some False g Inr by (simp add: main_row_def)
        then have "main_row srv cred sn (i, r) (st\<lparr>history := h2\<rparr>) = Inr (st'\<lparr>history := h'\<rparr>)"
          using Some False g2 res Inr True by (simp add: main_row_def)
        then show ?thesis by blast
      next
        case nonempty: False
        then have "st' = st\<lparr>data_posts := set_at i (get_url_column sn) url (data_posts st),
                           search_success := search_success st + 1,
                           console := console st @ [UrlFound (i + 1) url],
                           history := h,
                           stores := stores st @ [i]\<rparr>"
          using assms(2) Some False g Inr by (simp add: main_row_def)
        then have "main_row srv cred sn (i, r) (st\<lparr>history := h2\<rparr>) = Inr (st'\<lparr>history := h'\<rparr>)"
          using Some False g2 res Inr nonempty by (simp add: main_row_def)
        then show ?thesis by blast
      qed
    qed
  qed
qed

lemma main_loop_history:
  assumes "deterministic srv"
  shows "main_loop srv cred sn irs st = Inr st' \<Longrightarrow>
    \<exists>h'. main_loop srv cred sn irs (st\<lparr>history := h2\<rparr>) = Inr (st'\<lparr>history := h'\<rparr>)"
proof (induction irs arbitrary: st h2)
  case Nil
  then have "main_loop srv cred sn [] (st\<lparr>history := h2\<rparr>) = Inr (st'\<lparr>history := h2\<rparr>)"
    by simp
  then show ?case by blast
next
  case (Cons ir irs)
  obtain i r where ir: "ir = (i, r)" by (cases ir)
  from Cons.prems obtain st1 where
    step: "main_row srv cred sn (i, r) st = Inr st1" and
    rest: "main_loop srv cred sn irs st1 = Inr st'"
    using ir by (auto split: sum.splits)
  from main_row_history[OF assms step, of h2] obtain h1 where
    step2: "main_row srv cred sn (i, r) (st\<lparr>history := h2\<rparr>) = Inr (st1\<lparr>history := h1\<rparr>)"
    by blast
  from Cons.IH[OF rest, of h1] obtain h' where
    "main_loop srv cred sn irs (st1\<lparr>history := h1\<rparr>) = Inr (st'\<lparr>history := h'\<rparr>)"
    by blast
  then have "main_loop srv cred sn (ir # irs) (st\<lparr>history := h2\<rparr>) = Inr (st'\<lparr>history := h'\<rparr>)"
    using step2 ir by simp
  then show ?case by blast
qed

lemma reset_after_run:
  assumes "main srv cred sn df h = Inr st"
  shows "set_column (get_url_column sn) (PyStr []) (data_posts st) = set_column (get_url_column sn) (PyStr []) df"
proof (rule nth_equalityI)
  show "length (set_column (get_url_column sn) (PyStr []) (data_posts st)) =
        length (set_column (get_url_column sn) (PyStr []) df)"
    using main_result(2)[OF assms] by (simp add: set_column_def)
next
  fix i assume "i < length (set_column (get_url_column sn) (PyStr []) (data_posts st))"
  then have i: "i < length df" using main_result(2)[OF assms] by (simp add: set_column_def)
  then show "set_column (get_url_column sn) (PyStr []) (data_posts st) ! i =
             set_column (get_url_column sn) (PyStr []) df ! i"
    using main_result(2,5)[OF assms] by (simp add: set_column_def reset_row_after)
qed

lemma deterministic_stub: "deterministic stub"
  by (simp add: deterministic_def stub_def)

text \<open>
  C7. With a server whose responses do not depend on the history, a second run over the
  table that the first run produced ends with the same table, the same messages and the
  same counts.
\<close>

theorem main_rerun_same_output:
  assumes "deterministic srv" and "main srv cred social_network df h = Inr st"
  shows "\<exists>st2. main srv cred social_network (data_posts st) h2 = Inr st2 \<and>
           data_posts st2 = data_posts st \<and> console st2 = console st \<and>
           search_success st2 = search_success st \<and>
           insuficient_text st2 = insuficient_text st \<and> not_found st2 = not_found st"
proof -
  let ?df0 = "set_column (get_url_column social_network) (PyStr []) df"
  let ?st0 = "\<lparr>data_posts = ?df0, search_success = 0, insuficient_text = 0,
            console = [], history = h, stores = []\<rparr>"
  have run: "main_loop srv cred social_network (enumerate 0 ?df0) ?st0 = Inr st"
    using assms(2) by (simp add: main_def Let_def)
  from main_loop_history[OF assms(1) run, of h2] obtain h' where
    "main_loop srv cred social_network (enumerate 0 ?df0) (?st0\<lparr>history := h2\<rparr>) =
       Inr (st\<lparr>history := h'\<rparr>)"
    by blast
  then have "main srv cred social_network (data_posts st) h2 = Inr (st\<lparr>history := h'\<rparr>)"
    using reset_after_run[OF assms(2)] by (simp add: main_def Let_def)
  then show ?thesis by (simp add: not_found_def)
qed

theorem main_rerun_same_output_witness:
  "\<exists>st2. main stub cred0 FACEBOOK (data_posts posts_result) [] = Inr st2 \<and>
      data_posts st2 = data_posts posts_result \<and> console st2 = console posts_result \<and>
      search_success st2 = 1 \<and> insuficient_text st2 = 1 \<and> not_found st2 = 1"
  using main_rerun_same_output [OF deterministic_stub main_posts, of "[]"]
  by (simp add: posts_result_def not_found_def)

lemma attempts_extends: "\<exists>tr. snd (attempts srv ps sn as h) = h @ tr"
proof (induction as arbitrary: h)
  case Nil
  then show ?case by simp
next
  case (Cons a as)
  show ?case
  proof (cases "srv h ps")
    case NoResponse
    then show ?thesis by simp
  next
    case (Response st b)
    obtain tr where "snd (attempts srv ps sn as (h @ [Get ps, Sleep (2 ^ a)])) =
        (h @ [Get ps, Sleep (2 ^ a)]) @ tr"
      using Cons.IH by blast
    then show ?thesis using Response by (cases b) simp_all
  qed
qed

lemma attempts_sends_first: "\<exists>tr. snd (attempts srv ps sn (a # as) h) = h @ Get ps # tr"
proof (cases "srv h ps")
  case NoResponse
  then show ?thesis by simp
next
  case (Response st b)
  obtain tr where "snd (attempts srv ps sn as (h @ [Get ps, Sleep (2 ^ a)])) =
      (h @ [Get ps, Sleep (2 ^ a)]) @ tr"
    using attempts_extends by blast
  then show ?thesis using Response by (cases b) simp_all
qed

lemma google_search_sends_first:
  "\<exists>tr. snd (google_search srv cred query sn 5 5 h) = h @ Get (request_params cred query 5) # tr"
proof -
  have "[0..<nat 5] = 0 # [1..<5]" by (simp add: upt_conv_Cons)
  then show ?thesis
    unfolding google_search_def using attempts_sends_first by simp
qed

lemma query_of_199: "query_of FACEBOOK caption_199 = str_of ''site: facebook.com+'' @ replicate 180 97"
  by (simp add: caption_199_def query_of_def filter_bmp_replicate filter_bmp_append filter_bmp_Cons
      filter_bmp_Nil str_of_def)

lemma query_of_200: "query_of FACEBOOK caption_200 = str_of ''site: facebook.com+'' @ replicate 181 97"
  by (simp add: caption_200_def query_of_def filter_bmp_replicate str_of_def)

section \<open>The length threshold\<close>

text \<open>
  C5. For every caption, a cell that holds a string, the row is skipped (the message of
  line 164, the counter of short texts one higher, no request sent) exactly when the
  query, that is the site query, a plus sign and the filtered caption, is shorter than
  200 characters. At 200 characters
  and more the search is called with that query: its first request is sent, and the row
  ends as the search does.
\<close>

theorem main_row_skips_short_query:
  assumes "map_of r (get_text_column social_network) = Some (PyStr caption)"
  shows "(main_row srv cred social_network (index, r) st =
            Inr (st\<lparr>console := console st @
                       [Ignored (index + 1) (length (query_of social_network caption))],
                    insuficient_text := insuficient_text st + 1\<rparr>))
          = (length (query_of social_network caption) < 200) \<and>
         (200 \<le> length (query_of social_network caption) \<longrightarrow>
            (\<exists>tr. snd (google_search srv cred (query_of social_network caption)
                         social_network 5 5 (history st)) =
                    history st @
                      Get (request_params cred (query_of social_network caption) 5) # tr) \<and>
            (case main_row srv cred social_network (index, r) st of
               Inl e \<Rightarrow>
                 fst (google_search srv cred (query_of social_network caption)
                        social_network 5 5 (history st)) = Inl e
             | Inr st' \<Rightarrow>
                 history st' = snd (google_search srv cred (query_of social_network caption)
                                      social_network 5 5 (history st)) \<and>
                 insuficient_text st' = insuficient_text st \<and>
                 (\<exists>m. console st' = console st @ [m] \<and> \<not> is_ignored m)))"
proof -
  let ?q = "query_of social_network caption"
  let ?skip = "st\<lparr>console := console st @ [Ignored (index + 1) (length ?q)],
                    insuficient_text := insuficient_text st + 1\<rparr>"
  let ?g = "google_search srv cred ?q social_network 5 5 (history st)"
  have short: "length ?q < 200 \<Longrightarrow> main_row srv cred social_network (index, r) st = Inr ?skip"
    using assms by (simp add: main_row_def MIN_TEXT_LENGTH_def)
  have long: "(case main_row srv cred social_network (index, r) st of
               Inl e \<Rightarrow> fst ?g = Inl e
             | Inr st' \<Rightarrow>
                 history st' = snd ?g \<and> insuficient_text st' = insuficient_text st \<and>
                 (\<exists>m. console st' = console st @ [m] \<and> \<not> is_ignored m))"
    if "200 \<le> length ?q"
  proof -
    obtain res h where g: "?g = (res, h)" by (cases ?g)
    show ?thesis
    proof (cases res)
      case (Inl e)
      then show ?thesis using assms that g by (simp add: main_row_def MIN_TEXT_LENGTH_def)
    next
      case (Inr url)
      then show ?thesis using assms that g
        by (cases "truthy url") (simp_all add: main_row_def MIN_TEXT_LENGTH_def)
    qed
  qed
  have differ: "main_row srv cred social_network (index, r) st \<noteq> Inr ?skip"
    if "200 \<le> length ?q"
  proof
    assume "main_row srv cred social_network (index, r) st = Inr ?skip"
    with long[OF that] have "\<exists>m. console ?skip = console st @ [m] \<and> \<not> is_ignored m"
      by simp
    then show False by simp
  qed
  have iff: "(main_row srv cred social_network (index, r) st = Inr ?skip) = (length ?q < 200)"
    using short differ by (cases "length ?q < 200") auto
  show ?thesis using iff long google_search_sends_first by blast
qed

theorem main_row_skips_short_query_witness:
  "length caption_199 = 181 \<and> length (query_of FACEBOOK caption_199) = 199 \<and>
   main_row stub cred0 FACEBOOK (0, data_posts start ! 0) start =
     Inr (start\<lparr>console := [Ignored 1 199], insuficient_text := 1\<rparr>) \<and>
   length (query_of FACEBOOK caption_200) = 200 \<and>
   main_row stub cred0 FACEBOOK (1, data_posts start ! 1) start \<noteq>
     Inr (start\<lparr>console := [Ignored 2 200], insuficient_text := 1\<rparr>) \<and>
   (\<exists>tr. snd (google_search stub cred0 (query_of FACEBOOK caption_200) FACEBOOK 5 5 []) =
      Get (request_params cred0 (query_of FACEBOOK caption_200) 5) # tr)"
proof -
  have c0: "map_of (data_posts start ! 0) (get_text_column FACEBOOK) = Some (PyStr caption_199)"
    by (simp add: start_def str_of_def)
  have c1: "map_of (data_posts start ! 1) (get_text_column FACEBOOK) = Some (PyStr caption_200)"
    by (simp add: start_def str_of_def)
  have l0: "length (query_of FACEBOOK caption_199) = 199"
    by (simp add: query_of_199 str_of_def)
  have l1: "length (query_of FACEBOOK caption_200) = 200"
    by (simp add: query_of_200 str_of_def)
  have s: "console start = []" "insuficient_text start = 0" "history start = []"
    by (simp_all add: start_def)
  have a: "main_row stub cred0 FACEBOOK (0, data_posts start ! 0) start =
     Inr (start\<lparr>console := [Ignored 1 199], insuficient_text := 1\<rparr>)"
    using main_row_skips_short_query [OF c0, of stub cred0 0 start] l0 s by simp
  have b: "main_row stub cred0 FACEBOOK (1, data_posts start ! 1) start \<noteq>
     Inr (start\<lparr>console := [Ignored 2 200], insuficient_text := 1\<rparr>) \<and>
   (\<exists>tr. snd (google_search stub cred0 (query_of FACEBOOK caption_200) FACEBOOK 5 5 []) =
      Get (request_params cred0 (query_of FACEBOOK caption_200) 5) # tr)"
    using main_row_skips_short_query [OF c1, of stub cred0 1 start] l1 s
    by (simp add: numeral_2_eq_2)
  have "length caption_199 = 181" by (simp add: caption_199_def)
  then show ?thesis using l0 l1 a b by blast
qed

end
